theory Spec2Isabelle
  imports Main "HOL-Library.Sublist"
begin

section \<open>The text-injection operation of pinion (\<^verbatim>\<open>packages/pinion/src/ops/inject.ts\<close>)\<close>

text \<open>
  JavaScript strings are sequences of code units; they are modelled as \<^typ>\<open>string\<close>.
  Every character the code looks at (line feed, carriage return, the comma of
  \<^verbatim>\<open>Array.prototype.toString\<close>, the regular-expression syntax characters) is an ASCII
  character, and every other code unit is treated alike.
\<close>

subsection \<open>Characters\<close>

definition LF :: char where
  "LF = CHR 0x0A"

definition CR :: char where
  "CR = CHR 0x0D"

definition BACKSLASH :: char where
  "BACKSLASH = CHR 0x5C"

definition QUOTE :: char where
  "QUOTE = CHR 0x27"

subsection \<open>Built-ins of the language that the operation calls\<close>

text \<open>
  \<^verbatim>\<open>String.prototype.split\<close> with a string separator: the occurrences of the separator
  are found from left to right, without overlap. The empty separator splits into single
  code units.
\<close>

function split_str :: "string \<Rightarrow> string \<Rightarrow> string list" where
  "split_str sep s =
     (if sep = [] then map (\<lambda>c. [c]) s
      else if s = [] then [[]]
      else if prefix sep s then [] # split_str sep (drop (length sep) s)
      else (case split_str sep (tl s) of
              [] \<Rightarrow> [[hd s]]
            | seg # segs \<Rightarrow> (hd s # seg) # segs))"
  by pat_completeness auto
termination
  by (relation "measure (\<lambda>(sep, s). length s)") auto

declare split_str.simps [simp del]

text \<open>\<^verbatim>\<open>Array.prototype.join\<close> on an array of strings.\<close>

fun join :: "string \<Rightarrow> string list \<Rightarrow> string" where
  "join sep [] = []"
| "join sep [x] = x"
| "join sep (x # y # ys) = x @ sep @ join sep (y # ys)"

text \<open>
  \<^verbatim>\<open>lines.splice(index, 0, content)\<close> for an index that is not negative: the element is
  inserted at that position, and at the end when the index is beyond the array.
\<close>

definition splice_insert :: "string list \<Rightarrow> int \<Rightarrow> string \<Rightarrow> string list" where
  "splice_insert lines index content =
     take (nat index) lines @ [content] @ drop (nat index) lines"

text \<open>\<^verbatim>\<open>Array.prototype.findIndex\<close>: the first position whose element satisfies the predicate, or -1.\<close>

fun findIndex :: "('a \<Rightarrow> bool) \<Rightarrow> 'a list \<Rightarrow> int" where
  "findIndex P [] = -1"
| "findIndex P (x # xs) =
     (if P x then 0 else (let r = findIndex P xs in if r < 0 then -1 else r + 1))"

text \<open>
  \<^verbatim>\<open>str.split(EOLRegex)\<close> with \<^verbatim>\<open>EOLRegex = /\r?\n/\<close>: the text is cut at every
  line feed, together with the carriage return in front of it when there is one.
\<close>

fun split_EOLRegex :: "string \<Rightarrow> string list" where
  "split_EOLRegex [] = [[]]"
| "split_EOLRegex (c # cs) =
     (if c = CR \<and> cs \<noteq> [] \<and> hd cs = LF then [] # split_EOLRegex (tl cs)
      else if c = LF then [] # split_EOLRegex cs
      else (case split_EOLRegex cs of
              [] \<Rightarrow> [[c]]
            | seg # segs \<Rightarrow> (c # seg) # segs))"

text \<open>
  \<^verbatim>\<open>str.match(/(?:\r?\n)/g)\<close>: all matches from left to right, each either
  \<^verbatim>\<open>"\r\n"\<close> or \<^verbatim>\<open>"\n"\<close> (the empty list stands for \<^verbatim>\<open>null\<close>, which the code
  replaces by \<^verbatim>\<open>[]\<close>).
\<close>

fun match_newlines :: "string \<Rightarrow> string list" where
  "match_newlines [] = []"
| "match_newlines (c # cs) =
     (if c = CR \<and> cs \<noteq> [] \<and> hd cs = LF then [CR, LF] # match_newlines (tl cs)
      else if c = LF then [LF] # match_newlines cs
      else match_newlines cs)"

subsection \<open>The host\<close>

text \<open>
  \<^verbatim>\<open>os.EOL\<close> is \<^verbatim>\<open>"\n"\<close> on POSIX and \<^verbatim>\<open>"\r\n"\<close> on Windows;
  \<^verbatim>\<open>path.relative\<close> is a parameter.
\<close>

datatype platform = POSIX | Windows

record host =
  platform :: platform
  relative :: "string \<Rightarrow> string \<Rightarrow> string"

definition EOL :: "'a host_scheme \<Rightarrow> string" where
  "EOL h = (case platform h of POSIX \<Rightarrow> [LF] | Windows \<Rightarrow> [CR, LF])"

subsection \<open>\<^verbatim>\<open>newline\<close>\<close>

definition newline :: "'a host_scheme \<Rightarrow> string \<Rightarrow> string" where
  "newline h str =
     (let newlines = match_newlines str in
      if length newlines = 0 then EOL h
      else
        let crlf = length (filter (\<lambda>newline. newline = [CR, LF]) newlines);
            lf = length newlines - crlf
        in if crlf > lf then [CR, LF] else [LF])"

subsection \<open>Regular expressions\<close>

text \<open>
  The result of \<^verbatim>\<open>String.prototype.match\<close> when it is not \<^verbatim>\<open>null\<close>: an array that is
  never empty, and an \<^verbatim>\<open>index\<close> property. Without the \<^verbatim>\<open>g\<close> flag the array holds the
  matched text followed by the capture groups (\<^verbatim>\<open>undefined\<close> for a group that did not take
  part) and \<^verbatim>\<open>index\<close> is the start offset of the match; with the \<^verbatim>\<open>g\<close> flag the array
  holds every match and \<^verbatim>\<open>index\<close> is \<^verbatim>\<open>undefined\<close>.
\<close>

datatype js_match = Match (m_index: "nat option") (m_first: string) (m_rest: "string option list")

definition m_array :: "js_match \<Rightarrow> string option list" where
  "m_array m = Some (m_first m) # m_rest m"

text \<open>
  \<^verbatim>\<open>Array.prototype.toString\<close>: the elements joined with commas, \<^verbatim>\<open>undefined\<close> as
  the empty string.
\<close>

definition toString :: "js_match \<Rightarrow> string" where
  "toString m = join '','' (map (\<lambda>e. case e of None \<Rightarrow> [] | Some s \<Rightarrow> s) (m_array m))"

text \<open>
  A \<^verbatim>\<open>RegExp\<close> object that the caller passes in is known by what \<^verbatim>\<open>str.match\<close> returns
  for it (\<open>None\<close> for \<^verbatim>\<open>null\<close>) and by its text \<^verbatim>\<open>/source/flags\<close>. What it returns
  depends on the string alone: a regular expression with the \<^verbatim>\<open>y\<close> flag, which matches
  from its \<^verbatim>\<open>lastIndex\<close>, is not covered.
\<close>

record regexp =
  exec_match :: "string \<Rightarrow> js_match option"
  rx_text :: string

datatype pattern = Str string | Rx regexp

text \<open>
  The one regular expression that the code builds itself is
  \<^verbatim>\<open>new RegExp(escapeString(pattern), 'm')\<close>. The constructor is modelled on the fragment
  of the pattern grammar that such a source can be in: a sequence of pattern characters
  (any character that is not a syntax character, standing for itself) and of identity
  escapes (a backslash and a syntax character, standing for that character). A source
  with anything else is outside the fragment, and the model gives \<open>None\<close> for it.
\<close>

definition SyntaxCharacter :: string where
  "SyntaxCharacter = ''^$'' @ [BACKSLASH] @ ''.*+?()[]{}|''"

fun parse_literal :: "string \<Rightarrow> string option" where
  "parse_literal [] = Some []"
| "parse_literal (c # cs) =
     (if c = BACKSLASH then
        (case cs of
           [] \<Rightarrow> None
         | d # ds \<Rightarrow>
             if d \<in> set SyntaxCharacter then map_option (Cons d) (parse_literal ds) else None)
      else if c \<in> set SyntaxCharacter then None
      else map_option (Cons c) (parse_literal cs))"

text \<open>The leftmost offset at which the text continues with the literal.\<close>

fun search_literal :: "string \<Rightarrow> string \<Rightarrow> nat option" where
  "search_literal lit [] = (if lit = [] then Some 0 else None)"
| "search_literal lit (c # cs) =
     (if prefix lit (c # cs) then Some 0 else map_option Suc (search_literal lit cs))"

definition literal_regexp :: "string \<Rightarrow> string \<Rightarrow> regexp" where
  "literal_regexp src lit =
     \<lparr> exec_match = (\<lambda>text. map_option (\<lambda>i. Match (Some i) lit []) (search_literal lit text)),
       rx_text = ''/'' @ src @ ''/m'' \<rparr>"

definition RegExp_m :: "string \<Rightarrow> regexp option" where
  "RegExp_m src = map_option (literal_regexp src) (parse_literal src)"

subsection \<open>\<^verbatim>\<open>escapeString\<close> and \<^verbatim>\<open>getLineNumber\<close>\<close>

text \<open>The character class of \<^verbatim>\<open>/[.*+?^${}()|[\]\\]/g\<close>, replaced by \<^verbatim>\<open>'\\$&'\<close>.\<close>

definition escape_class :: string where
  "escape_class = ''.*+?^${}()|[]'' @ [BACKSLASH]"

definition escapeString :: "string \<Rightarrow> string" where
  "escapeString str = concat (map (\<lambda>c. if c \<in> set escape_class then [BACKSLASH, c] else [c]) str)"

definition matcher_of :: "pattern \<Rightarrow> regexp option" where
  "matcher_of pattern = (case pattern of Rx r \<Rightarrow> Some r | Str s \<Rightarrow> RegExp_m (escapeString s))"

text \<open>\<^verbatim>\<open>str.substring(0, end)\<close>, where \<^verbatim>\<open>end\<close> may be \<^verbatim>\<open>undefined\<close>.\<close>

definition substring0 :: "string \<Rightarrow> nat option \<Rightarrow> string" where
  "substring0 str e = (case e of None \<Rightarrow> str | Some n \<Rightarrow> take n str)"

text \<open>
  The result is \<open>None\<close> only when the matcher is outside the modelled fragment, which
  does not happen (lemma \<open>getLineNumber_total\<close> below).
\<close>

definition getLineNumber :: "pattern \<Rightarrow> string list \<Rightarrow> bool \<Rightarrow> int option" where
  "getLineNumber pattern lines isBefore =
     (case matcher_of pattern of
        None \<Rightarrow> None
      | Some matcher \<Rightarrow>
          Some
           (let oneLineMatchIndex = findIndex (\<lambda>l. exec_match matcher l \<noteq> None) lines in
            if oneLineMatchIndex < 0 then
              (let fullText = join [LF] lines;
                   fullMatch = exec_match matcher fullText
               in case fullMatch of
                    None \<Rightarrow> oneLineMatchIndex
                  | Some m \<Rightarrow>
                      if length (m_array m) \<noteq> 0 then
                        (if isBefore then
                           (let fullTextUntilMatchStart = substring0 fullText (m_index m)
                            in int (length (split_EOLRegex fullTextUntilMatchStart)) - 1)
                         else
                           (let matchEndIndex =
                                  (case m_index m of None \<Rightarrow> 0 | Some i \<Rightarrow> i)
                                    + length (toString m);
                                fullTextUntilMatchEnd = substring0 fullText (Some matchEndIndex)
                            in int (length (split_EOLRegex fullTextUntilMatchEnd))))
                      else oneLineMatchIndex)
            else oneLineMatchIndex + (if isBefore then 0 else 1)))"

subsection \<open>Errors, callables and anchor resolvers\<close>

text \<open>
  \<open>Error msg\<close> is a thrown \<^verbatim>\<open>Error\<close> with that message; \<open>Outside_fragment\<close> stands for a
  regular expression that the model of the constructor does not cover.
\<close>

datatype error = Error string | Outside_fragment

datatype ('a, 'c) callable = Value 'a | Function "'c \<Rightarrow> error + 'a"

text \<open>
  Modelled from the spec: \<^verbatim>\<open>getCallable\<close> of \<^verbatim>\<open>../core\<close>, which is not among the
  sources. A plain value is returned unchanged; a function is called with the context, and
  a failure that it raises is propagated.
\<close>

fun getCallable :: "('a, 'c) callable \<Rightarrow> 'c \<Rightarrow> error + 'a" where
  "getCallable (Value v) ctx = Inr v"
| "getCallable (Function f) ctx = f ctx"

record location_result =
  index :: int
  pattern :: "pattern option"

type_synonym 'c location = "string list \<Rightarrow> 'c \<Rightarrow> string \<Rightarrow> error + location_result"

text \<open>The template literal \<^verbatim>\<open>${line}\<close>: a string as it is, a regular expression as its text.\<close>

definition pattern_text :: "pattern \<Rightarrow> string" where
  "pattern_text p = (case p of Str s \<Rightarrow> s | Rx r \<Rightarrow> rx_text r)"

definition before :: "(pattern, 'c) callable \<Rightarrow> 'c location" where
  "before pat lines ctx fileName =
     (case getCallable pat ctx of
        Inl e \<Rightarrow> Inl e
      | Inr line \<Rightarrow>
          (case getLineNumber line lines True of
             None \<Rightarrow> Inl Outside_fragment
           | Some i \<Rightarrow>
               if i < 0 then
                 Inl (Error (''Could not find line '' @ [QUOTE] @ pattern_text line @ [QUOTE]
                             @ '' in file '' @ fileName @ '' to inject content before''))
               else Inr \<lparr> index = i, pattern = Some line \<rparr>))"

definition after :: "(pattern, 'c) callable \<Rightarrow> 'c location" where
  "after pat lines ctx fileName =
     (case getCallable pat ctx of
        Inl e \<Rightarrow> Inl e
      | Inr line \<Rightarrow>
          (case getLineNumber line lines False of
             None \<Rightarrow> Inl Outside_fragment
           | Some i \<Rightarrow>
               if i < 0 then
                 Inl (Error (''Could not find line '' @ [QUOTE] @ pattern_text line @ [QUOTE]
                             @ '' in file '' @ fileName @ '' to inject content after''))
               else Inr \<lparr> index = i, pattern = Some line \<rparr>))"

text \<open>
  The resolvers \<^verbatim>\<open>prepend()\<close> and \<^verbatim>\<open>append()\<close>; the second is named
  \<open>append_location\<close> here, next to the \<open>append\<close> of lists.
\<close>

definition prepend :: "'c location" where
  "prepend lines ctx fileName = Inr \<lparr> index = 0, pattern = None \<rparr>"

definition append_location :: "'c location" where
  "append_location lines ctx fileName = Inr \<lparr> index = int (length lines), pattern = None \<rparr>"

subsection \<open>The context and the world\<close>

text \<open>
  Of the context, the operation uses the working directory and the trace; other fields are
  in the extension of the record. An entry of the trace is the name of an action with its
  parameters.
\<close>

type_synonym trace_entry = "string \<times> (string \<times> string) list"

record ctx =
  cwd :: string
  trace :: "trace_entry list"

text \<open>
  Modelled from the spec: \<^verbatim>\<open>addTrace\<close> of \<^verbatim>\<open>./helpers\<close>, which is not among the
  sources. It returns the context with one more entry at the end of the trace.
\<close>

definition addTrace :: "'a ctx_scheme \<Rightarrow> string \<Rightarrow> (string \<times> string) list \<Rightarrow> 'a ctx_scheme" where
  "addTrace c action params = c\<lparr> trace := trace c @ [(action, params)] \<rparr>"

text \<open>
  The world outside: the files with their contents, the reads and writes done so far, in
  order, and the messages given to \<^verbatim>\<open>ctx.pinion.logger.notice\<close>.
\<close>

datatype io_event = ReadFile string | WriteFile string string

record world =
  files :: "string \<rightharpoonup> string"
  io :: "io_event list"
  notices :: "string list"

definition existsSync :: "world \<Rightarrow> string \<Rightarrow> bool" where
  "existsSync w fileName = (files w fileName \<noteq> None)"

definition readFile :: "world \<Rightarrow> string \<Rightarrow> (error + string) \<times> world" where
  "readFile w fileName =
     (let w' = w\<lparr> io := io w @ [ReadFile fileName] \<rparr>
      in case files w fileName of
           None \<Rightarrow> (Inl (Error (''ENOENT: no such file or directory, open '' @ [QUOTE] @ fileName @ [QUOTE])), w')
         | Some data \<Rightarrow> (Inr data, w'))"

definition writeFile :: "world \<Rightarrow> string \<Rightarrow> string \<Rightarrow> world" where
  "writeFile w fileName data =
     w\<lparr> files := (files w)(fileName \<mapsto> data), io := io w @ [WriteFile fileName data] \<rparr>"

definition notice :: "world \<Rightarrow> string \<Rightarrow> world" where
  "notice w msg = w\<lparr> notices := notices w @ [msg] \<rparr>"

subsection \<open>\<^verbatim>\<open>inject\<close>\<close>

definition inject ::
  "'h host_scheme \<Rightarrow> (string, 'a ctx_scheme) callable \<Rightarrow> 'a ctx_scheme location
     \<Rightarrow> (string, 'a ctx_scheme) callable \<Rightarrow> 'a ctx_scheme \<Rightarrow> world
     \<Rightarrow> (error + 'a ctx_scheme) \<times> world" where
  "inject h template location target c w =
     (case getCallable target c of
        Inl e \<Rightarrow> (Inl e, w)
      | Inr fileName \<Rightarrow>
     (case getCallable template c of
        Inl e \<Rightarrow> (Inl e, w)
      | Inr content \<Rightarrow>
     (let relativeName = relative h (cwd c) fileName in
      if \<not> existsSync w fileName then
        (Inl (Error (''Cannot inject to '' @ [QUOTE] @ fileName @ [QUOTE]
                     @ ''. The file doesn'' @ [QUOTE] @ ''t exist.'')), w)
      else
        (case readFile w fileName of
           (Inl e, w1) \<Rightarrow> (Inl e, w1)
         | (Inr fileContent, w1) \<Rightarrow>
        (let NL = newline h fileContent;
             lines = split_str NL fileContent
         in case location lines c relativeName of
              Inl e \<Rightarrow> (Inl e, w1)
            | Inr loc \<Rightarrow>
           (let lines' = (if index loc \<ge> 0 then splice_insert lines (index loc) content
                          else lines);
                newContent = join NL lines';
                w2 = writeFile w1 fileName newContent;
                w3 = notice w2 (''Updated '' @ relativeName)
            in (Inr (addTrace c ''inject'' [(''fileName'', fileName), (''content'', content)]),
                w3)))))))"

subsection \<open>Notions of the specification\<close>

text \<open>A line's text matches the pattern: \<^verbatim>\<open>l.match(matcher)\<close> is not \<^verbatim>\<open>null\<close>.\<close>

definition line_matches :: "pattern \<Rightarrow> string \<Rightarrow> bool" where
  "line_matches p l = (case matcher_of p of None \<Rightarrow> False | Some r \<Rightarrow> exec_match r l \<noteq> None)"

text \<open>
  The newline occurrences of a text, in the specification's words: a CRLF occurrence is a
  carriage return with a line feed right after it; an LF occurrence is a line feed that
  has no carriage return right before it.
\<close>

definition crlf_occurrences :: "string \<Rightarrow> nat" where
  "crlf_occurrences s = count_list (zip s (tl s)) (CR, LF)"

definition lf_occurrences :: "string \<Rightarrow> nat" where
  "lf_occurrences s =
     length (filter (\<lambda>(p, c). c = LF \<and> p \<noteq> Some CR) (zip (None # map Some s) s))"

subsection \<open>Regular expressions with a flag or a group\<close>

text \<open>
  \<^verbatim>\<open>/lit/g\<close> for a literal text that is not empty: \<^verbatim>\<open>str.match\<close> returns all the
  occurrences, found from left to right without overlap, and no \<^verbatim>\<open>index\<close>.
\<close>

definition global_literal_regexp :: "string \<Rightarrow> string \<Rightarrow> regexp" where
  "global_literal_regexp src lit =
     \<lparr> exec_match =
         (\<lambda>text. case replicate (length (split_str lit text) - 1) lit of
                    [] \<Rightarrow> None
                  | x # xs \<Rightarrow> Some (Match None x (map Some xs))),
       rx_text = ''/'' @ src @ ''/g'' \<rparr>"

text \<open>
  \<^verbatim>\<open>/(g)rest/\<close> for literal texts \<^verbatim>\<open>g\<close> and \<^verbatim>\<open>rest\<close>: the match of the whole
  pattern, and the text of its one capture group.
\<close>

definition group_literal_regexp :: "string \<Rightarrow> string \<Rightarrow> string \<Rightarrow> regexp" where
  "group_literal_regexp src g rest =
     \<lparr> exec_match =
         (\<lambda>text. map_option (\<lambda>i. Match (Some i) (g @ rest) [Some g])
                    (search_literal (g @ rest) text)),
       rx_text = ''/'' @ src @ ''/'' \<rparr>"

subsection \<open>Example inputs\<close>

text \<open>
  A POSIX host whose \<^verbatim>\<open>path.relative\<close> drops the working directory in front of a path
  under it, a context with an empty trace, and a world with two files: one with a single
  line feed, and one with two CRLF and one LF.
\<close>

definition example_host :: host where
  "example_host =
     \<lparr> platform = POSIX,
       relative = (\<lambda>from to. if prefix (from @ ''/'') to then drop (length from + 1) to else to) \<rparr>"

definition example_ctx :: ctx where
  "example_ctx = \<lparr> cwd = ''/work'', trace = [] \<rparr>"

definition example_world :: world where
  "example_world =
     \<lparr> files = [''/work/f.txt'' \<mapsto> ''A'' @ [LF] @ ''B'',
                 ''/work/mixed.txt'' \<mapsto> ''a'' @ [CR, LF] @ ''b'' @ [CR, LF] @ ''c'' @ [LF] @ ''d''],
       io = [],
       notices = [] \<rparr>"

text \<open>An anchor resolver that returns a negative index without failing.\<close>

definition negative_location :: "'c location" where
  "negative_location lines c fileName = Inr \<lparr> index = - 1, pattern = None \<rparr>"

text \<open>
  The lines A, B, C, D, and two regular expressions that match them only when they are
  joined: \<^verbatim>\<open>/B\nC/g\<close> and \<^verbatim>\<open>/(B)\nC/\<close>.
\<close>

definition example_lines :: "string list" where
  "example_lines = [''A'', ''B'', ''C'', ''D'']"

definition example_global_regexp :: regexp where
  "example_global_regexp =
     global_literal_regexp (''B'' @ [BACKSLASH] @ ''nC'') (''B'' @ [LF] @ ''C'')"

definition example_group_regexp :: regexp where
  "example_group_regexp =
     group_literal_regexp (''(B)'' @ [BACKSLASH] @ ''nC'') ''B'' ([LF] @ ''C'')"

section \<open>Properties\<close>

subsection \<open>The built-ins, the parser and the search\<close>

lemma CR_neq_LF [simp]: "CR \<noteq> LF" "LF \<noteq> CR"
  by (simp_all add: CR_def LF_def)

lemma findIndex_ge: "- 1 \<le> findIndex P xs"
  by (induction xs) (auto simp: Let_def)

lemma findIndex_neg_iff: "findIndex P xs < 0 \<longleftrightarrow> (\<forall>x\<in>set xs. \<not> P x)"
  by (induction xs) (auto simp: Let_def)

lemma findIndex_none: "(\<forall>x\<in>set xs. \<not> P x) \<Longrightarrow> findIndex P xs = - 1"
  by (induction xs) (auto simp: Let_def)

lemma findIndex_first:
  "\<exists>x\<in>set xs. P x \<Longrightarrow>
   \<exists>i. i < length xs \<and> findIndex P xs = int i \<and> P (xs ! i) \<and> (\<forall>j<i. \<not> P (xs ! j))"
proof (induction xs)
  case Nil
  then show ?case by simp
next
  case (Cons x xs)
  show ?case
  proof (cases "P x")
    case True
    then show ?thesis by (intro exI [of _ 0]) simp
  next
    case False
    with Cons.prems have "\<exists>x\<in>set xs. P x" by simp
    from Cons.IH [OF this] obtain i where i: "i < length xs" "findIndex P xs = int i"
      "P (xs ! i)" "\<forall>j<i. \<not> P (xs ! j)" by blast
    have "\<forall>j<Suc i. \<not> P ((x # xs) ! j)"
      using False i(4) by (auto simp: less_Suc_eq_0_disj)
    with i False show ?thesis
      by (intro exI [of _ "Suc i"]) (simp add: Let_def)
  qed
qed

lemma join_Cons_Cons: "join sep ((c # x) # xs) = c # join sep (x # xs)"
  by (cases xs) simp_all

lemma split_str_not_Nil: "sep \<noteq> [] \<Longrightarrow> split_str sep s \<noteq> []"
  by (induction sep s rule: split_str.induct) (subst split_str.simps, auto split: list.splits)

lemma join_Nil_Cons: "xs \<noteq> [] \<Longrightarrow> join sep ([] # xs) = sep @ join sep xs"
  by (cases xs) simp_all

lemma join_split_str: "sep \<noteq> [] \<Longrightarrow> join sep (split_str sep s) = s"
proof (induction sep s rule: split_str.induct)
  case (1 sep s)
  show ?case
  proof (cases "s = []")
    case True
    with 1 show ?thesis by (subst split_str.simps) simp
  next
    case ne: False
    show ?thesis
    proof (cases "prefix sep s")
      case True
      then have s: "s = sep @ drop (length sep) s"
        by (metis append_eq_conv_conj prefix_def)
      have "join sep (split_str sep s) = sep @ join sep (split_str sep (drop (length sep) s))"
        using True ne "1.prems"
        by (subst split_str.simps) (simp add: join_Nil_Cons split_str_not_Nil)
      also have "\<dots> = sep @ drop (length sep) s"
        using "1.IH"(1) [OF "1.prems" ne True] "1.prems" by simp
      finally show ?thesis using s by simp
    next
      case False
      obtain seg segs where sp: "split_str sep (tl s) = seg # segs"
        using split_str_not_Nil [OF "1.prems", of "tl s"] by (cases "split_str sep (tl s)") auto
      have "join sep (split_str sep s) = hd s # join sep (split_str sep (tl s))"
        using False ne "1.prems" sp
        by (subst split_str.simps) (simp add: join_Cons_Cons)
      also have "\<dots> = hd s # tl s"
        using "1.IH"(2) [OF "1.prems" ne False] "1.prems" by simp
      finally show ?thesis using ne by simp
    qed
  qed
qed

lemma split_EOLRegex_not_Nil: "split_EOLRegex s \<noteq> []"
  by (induction s rule: split_EOLRegex.induct) (auto split: list.splits)

lemma length_split_EOLRegex: "length (split_EOLRegex s) = Suc (count_list s LF)"
proof (induction s rule: split_EOLRegex.induct)
  case 1
  show ?case by simp
next
  case (2 c cs)
  consider (crlf) "c = CR" "cs \<noteq> []" "hd cs = LF"
    | (lf) "\<not> (c = CR \<and> cs \<noteq> [] \<and> hd cs = LF)" "c = LF"
    | (other) "\<not> (c = CR \<and> cs \<noteq> [] \<and> hd cs = LF)" "c \<noteq> LF"
    by blast
  then show ?case
  proof cases
    case crlf
    then have cs: "cs = LF # tl cs" by (cases cs) auto
    have "length (split_EOLRegex (c # cs)) = Suc (length (split_EOLRegex (tl cs)))"
      using crlf by simp
    also have "\<dots> = Suc (Suc (count_list (tl cs) LF))"
      using "2.IH"(1) crlf by simp
    also have "\<dots> = Suc (count_list (c # cs) LF)"
      using crlf by (subst (2) cs) (simp add: CR_def LF_def)
    finally show ?thesis .
  next
    case lf
    have "length (split_EOLRegex (c # cs)) = Suc (length (split_EOLRegex cs))"
      using lf by auto
    also have "\<dots> = Suc (Suc (count_list cs LF))"
      using "2.IH"(2) lf by blast
    also have "\<dots> = Suc (count_list (c # cs) LF)"
      using lf by simp
    finally show ?thesis .
  next
    case other
    obtain seg segs where sp: "split_EOLRegex cs = seg # segs"
      using split_EOLRegex_not_Nil [of cs] by (cases "split_EOLRegex cs") auto
    have "length (split_EOLRegex (c # cs)) = length (split_EOLRegex cs)"
      using other sp by auto
    also have "\<dots> = Suc (count_list cs LF)"
      using "2.IH"(3) other by blast
    also have "\<dots> = Suc (count_list (c # cs) LF)"
      using other by simp
    finally show ?thesis .
  qed
qed

lemma parse_literal_escapeString: "parse_literal (escapeString s) = Some s"
  by (induction s) (auto simp: escapeString_def escape_class_def SyntaxCharacter_def BACKSLASH_def)

lemma search_literal_sublist: "search_literal lit t \<noteq> None \<longleftrightarrow> sublist lit t"
  by (induction t) (auto simp: sublist_Cons_right)

lemma search_literal_leftmost:
  "search_literal lit t = Some i \<Longrightarrow>
     i \<le> length t \<and> prefix lit (drop i t) \<and> (\<forall>j<i. \<not> prefix lit (drop j t))"
proof (induction t arbitrary: i)
  case Nil
  then show ?case by (simp split: if_splits)
next
  case (Cons c cs)
  show ?case
  proof (cases "prefix lit (c # cs)")
    case True
    with Cons.prems show ?thesis by simp
  next
    case False
    with Cons.prems obtain k where k: "search_literal lit cs = Some k" "i = Suc k"
      by auto
    from Cons.IH [OF k(1)] False k(2) show ?thesis
      by (auto simp: less_Suc_eq_0_disj)
  qed
qed

lemma matcher_of_Str:
  "matcher_of (Str s) = Some (literal_regexp (escapeString s) s)"
  by (simp add: matcher_of_def RegExp_m_def parse_literal_escapeString)

lemma matcher_of_total: "matcher_of p \<noteq> None"
  by (cases p) (simp_all add: matcher_of_Str, simp add: matcher_of_def)

lemma getLineNumber_total: "getLineNumber p lines b \<noteq> None"
  using matcher_of_total [of p] by (auto simp: getLineNumber_def)

lemma literal_regexp_sublist:
  "exec_match (literal_regexp src lit) l \<noteq> None \<longleftrightarrow> sublist lit l"
  using search_literal_sublist [of lit l] by (auto simp: literal_regexp_def)

lemma set_escape_class: "set escape_class = set SyntaxCharacter"
  by (auto simp: escape_class_def SyntaxCharacter_def)

lemma line_matches_Str: "line_matches (Str s) l \<longleftrightarrow> sublist s l"
  using literal_regexp_sublist [of "escapeString s" s l]
  by (simp add: line_matches_def matcher_of_Str)

subsection \<open>\<^verbatim>\<open>prepend\<close> and \<^verbatim>\<open>append\<close>\<close>

text \<open>
  C8: for every line sequence, every context and every file name, \<^verbatim>\<open>prepend()\<close>
  returns index 0 and \<^verbatim>\<open>append()\<close> returns the length of the sequence, whatever the
  lines hold; neither fails and neither returns a negative index.
\<close>

theorem prepend_append_index:
  "prepend lines c fileName = Inr \<lparr> index = 0, pattern = None \<rparr>
   \<and> append_location lines c' fileName' = Inr \<lparr> index = int (length lines), pattern = None \<rparr>
   \<and> 0 \<le> index \<lparr> index = int (length lines), pattern = None \<rparr>"
  by (simp add: prepend_def append_location_def)

theorem prepend_append_index_witness:
  "prepend [''A'', ''B'', ''C''] () ''f.txt'' = Inr \<lparr> index = 0, pattern = None \<rparr>
   \<and> append_location [''A'', ''B'', ''C''] () ''f.txt'' = Inr \<lparr> index = 3, pattern = None \<rparr>"
  using prepend_append_index [of "[''A'', ''B'', ''C'']" "()" "''f.txt''" "()" "''f.txt''"]
  by simp

subsection \<open>Literal patterns\<close>

text \<open>
  C9: a pattern that is a string is escaped before it is compiled: \<^verbatim>\<open>escapeString\<close> puts
  a backslash in front of every syntax character of the pattern grammar, so the source
  parses as the literal text of the pattern, and the compiled matcher finds a match in a
  line exactly when the line contains that text. A pattern that is a regular expression
  already is the matcher, unmodified.
\<close>

theorem escaped_literal_matches_exact_text:
  "escapeString s = concat (map (\<lambda>c. if c \<in> set SyntaxCharacter then [BACKSLASH, c] else [c]) s)
   \<and> parse_literal (escapeString s) = Some s
   \<and> (\<exists>r. matcher_of (Str s) = Some r
          \<and> (\<forall>l. exec_match r l \<noteq> None \<longleftrightarrow> sublist s l)
          \<and> (\<forall>t. exec_match r t = map_option (\<lambda>i. Match (Some i) s []) (search_literal s t)))
   \<and> matcher_of (Rx rx) = Some rx"
proof (intro conjI)
  show "escapeString s = concat (map (\<lambda>c. if c \<in> set SyntaxCharacter then [BACKSLASH, c] else [c]) s)"
    by (simp add: escapeString_def set_escape_class)
  show "parse_literal (escapeString s) = Some s"
    by (rule parse_literal_escapeString)
  show "\<exists>r. matcher_of (Str s) = Some r
          \<and> (\<forall>l. exec_match r l \<noteq> None \<longleftrightarrow> sublist s l)
          \<and> (\<forall>t. exec_match r t = map_option (\<lambda>i. Match (Some i) s []) (search_literal s t))"
    using literal_regexp_sublist [of "escapeString s" s]
    by (intro exI [of _ "literal_regexp (escapeString s) s"])
       (simp add: matcher_of_Str, simp add: literal_regexp_def)
  show "matcher_of (Rx rx) = Some rx"
    by (simp add: matcher_of_def)
qed

text \<open>
  The pattern \<^verbatim>\<open>"a.b(c)"\<close>: its escaped source, and the one line of two that it matches
  (the dot does not stand for the \<^verbatim>\<open>x\<close> of the first line).
\<close>

theorem escaped_literal_matches_exact_text_witness:
  "escapeString ''a.b(c)'' = ''a'' @ [BACKSLASH] @ ''.b'' @ [BACKSLASH] @ ''(c'' @ [BACKSLASH] @ '')''
   \<and> parse_literal (''a'' @ [BACKSLASH] @ ''.b'' @ [BACKSLASH] @ ''(c'' @ [BACKSLASH] @ '')'') = Some ''a.b(c)''
   \<and> parse_literal ''a.b(c)'' = None
   \<and> getLineNumber (Str ''a.b(c)'') [''axb(c)'', ''a.b(c)''] True = Some 1"
proof -
  have e: "escapeString ''a.b(c)'' = ''a'' @ [BACKSLASH] @ ''.b'' @ [BACKSLASH] @ ''(c'' @ [BACKSLASH] @ '')''"
    by (simp add: escapeString_def escape_class_def BACKSLASH_def)
  have "parse_literal (escapeString ''a.b(c)'') = Some ''a.b(c)''"
    using escaped_literal_matches_exact_text [of "''a.b(c)''"] by blast
  moreover have "parse_literal ''a.b(c)'' = None"
    by (simp add: SyntaxCharacter_def BACKSLASH_def)
  moreover have "getLineNumber (Str ''a.b(c)'') [''axb(c)'', ''a.b(c)''] True = Some 1"
    by (simp add: getLineNumber_def matcher_of_Str literal_regexp_def Let_def)
  ultimately show ?thesis using e by simp
qed

subsection \<open>The search for the anchor\<close>

lemma matcher_of_cases:
  obtains r where "matcher_of p = Some r"
  using matcher_of_total [of p] by auto

lemma getLineNumber_single_line:
  assumes "matcher_of p = Some r"
    and "findIndex (\<lambda>l. exec_match r l \<noteq> None) lines = int i"
  shows "getLineNumber p lines b = Some (int i + (if b then 0 else 1))"
  using assms by (simp add: getLineNumber_def Let_def)

lemma getLineNumber_no_line:
  assumes "matcher_of p = Some r"
    and "\<forall>l\<in>set lines. exec_match r l = None"
  shows "getLineNumber p lines b =
    Some (case exec_match r (join [LF] lines) of
            None \<Rightarrow> - 1
          | Some m \<Rightarrow>
              if b then int (count_list (substring0 (join [LF] lines) (m_index m)) LF)
              else int (count_list
                     (take ((case m_index m of None \<Rightarrow> 0 | Some i \<Rightarrow> i) + length (toString m))
                        (join [LF] lines)) LF) + 1)"
proof -
  have "findIndex (\<lambda>l. exec_match r l \<noteq> None) lines = - 1"
    using assms(2) by (intro findIndex_none) simp
  then show ?thesis
    using assms(1)
    by (simp add: getLineNumber_def Let_def m_array_def length_split_EOLRegex substring0_def
          split: option.splits)
qed

text \<open>
  C1: when some line matches the pattern, \<^verbatim>\<open>before\<close> returns the index of the first
  line, from the top, whose text matches, and \<^verbatim>\<open>after\<close> returns that index plus one.
\<close>

theorem before_after_first_matching_line:
  assumes "getCallable pat c = Inr p"
    and "\<exists>l\<in>set lines. line_matches p l"
  shows "\<exists>i<length lines. line_matches p (lines ! i) \<and> (\<forall>j<i. \<not> line_matches p (lines ! j))
           \<and> before pat lines c fileName = Inr \<lparr> index = int i, pattern = Some p \<rparr>
           \<and> after pat lines c fileName = Inr \<lparr> index = int i + 1, pattern = Some p \<rparr>"
proof -
  obtain r where r: "matcher_of p = Some r" by (rule matcher_of_cases)
  let ?P = "\<lambda>l. exec_match r l \<noteq> None"
  have lm: "line_matches p l = ?P l" for l
    using r by (simp add: line_matches_def)
  from assms(2) have "\<exists>l\<in>set lines. ?P l" by (simp add: lm)
  from findIndex_first [OF this] obtain i where i: "i < length lines"
    "findIndex ?P lines = int i" "?P (lines ! i)" "\<forall>j<i. \<not> ?P (lines ! j)"
    by blast
  have "before pat lines c fileName = Inr \<lparr> index = int i, pattern = Some p \<rparr>"
    using assms(1) getLineNumber_single_line [OF r i(2), of True]
    by (simp add: before_def)
  moreover have "after pat lines c fileName = Inr \<lparr> index = int i + 1, pattern = Some p \<rparr>"
    using assms(1) getLineNumber_single_line [OF r i(2), of False]
    by (simp add: after_def)
  ultimately show ?thesis
    using i(1,3,4) unfolding lm by blast
qed

text \<open>
  On the lines A, B, C with the pattern \<^verbatim>\<open>"B"\<close>: \<^verbatim>\<open>before\<close> gives 1 and inserting X
  there gives A, X, B, C; \<^verbatim>\<open>after\<close> gives 2 and inserting X there gives A, B, X, C.
\<close>

theorem before_after_first_matching_line_witness:
  "before (Value (Str ''B'')) [''A'', ''B'', ''C''] () ''f.txt''
     = Inr \<lparr> index = 1, pattern = Some (Str ''B'') \<rparr>
   \<and> splice_insert [''A'', ''B'', ''C''] 1 ''X'' = [''A'', ''X'', ''B'', ''C'']
   \<and> after (Value (Str ''B'')) [''A'', ''B'', ''C''] () ''f.txt''
     = Inr \<lparr> index = 2, pattern = Some (Str ''B'') \<rparr>
   \<and> splice_insert [''A'', ''B'', ''C''] 2 ''X'' = [''A'', ''B'', ''X'', ''C'']"
proof -
  let ?lines = "[''A'', ''B'', ''C'']"
  have 1: "getCallable (Value (Str ''B'')) () = Inr (Str ''B'')" by simp
  have 2: "\<exists>l\<in>set ?lines. line_matches (Str ''B'') l"
    by (simp add: line_matches_Str sublist_Cons_right)
  from before_after_first_matching_line [OF 1 2, of "''f.txt''"]
  obtain i where i: "i < length ?lines" "line_matches (Str ''B'') (?lines ! i)"
    "\<forall>j<i. \<not> line_matches (Str ''B'') (?lines ! j)"
    "before (Value (Str ''B'')) ?lines () ''f.txt'' = Inr \<lparr> index = int i, pattern = Some (Str ''B'') \<rparr>"
    "after (Value (Str ''B'')) ?lines () ''f.txt'' = Inr \<lparr> index = int i + 1, pattern = Some (Str ''B'') \<rparr>"
    by blast
  have "i = 1"
    using i(1,2) by (auto simp: line_matches_Str sublist_Cons_right less_Suc_eq numeral_3_eq_3)
  with i(4,5) show ?thesis by (simp add: splice_insert_def)
qed

subsection \<open>A run of \<^verbatim>\<open>inject\<close>\<close>

lemma newline_cases: "newline h s = [LF] \<or> newline h s = [CR, LF]"
  by (auto simp: newline_def EOL_def Let_def split: platform.splits)

lemma newline_not_Nil: "newline h s \<noteq> []"
  using newline_cases [of h s] by auto

lemma join_split_newline: "join (newline h s) (split_str (newline h s) s) = s"
  by (rule join_split_str [OF newline_not_Nil])

lemma inject_run:
  assumes "getCallable target c = Inr fileName"
    and "getCallable template c = Inr content"
    and "files w fileName = Some s"
    and "location (split_str (newline h s) s) c (relative h (cwd c) fileName) = Inr loc"
  shows "inject h template location target c w =
    (Inr (addTrace c ''inject'' [(''fileName'', fileName), (''content'', content)]),
     w\<lparr> files := (files w)(fileName \<mapsto>
            join (newline h s)
              (if 0 \<le> index loc then splice_insert (split_str (newline h s) s) (index loc) content
               else split_str (newline h s) s)),
         io := io w @ [ReadFile fileName,
            WriteFile fileName
              (join (newline h s)
                (if 0 \<le> index loc then splice_insert (split_str (newline h s) s) (index loc) content
                 else split_str (newline h s) s))],
         notices := notices w @ [''Updated '' @ relative h (cwd c) fileName] \<rparr>)"
  using assms
  by (simp add: inject_def existsSync_def readFile_def writeFile_def notice_def Let_def)

lemma inject_location_fails:
  assumes "getCallable target c = Inr fileName"
    and "getCallable template c = Inr content"
    and "files w fileName = Some s"
    and "location (split_str (newline h s) s) c (relative h (cwd c) fileName) = Inl e"
  shows "inject h template location target c w = (Inl e, w\<lparr> io := io w @ [ReadFile fileName] \<rparr>)"
  using assms
  by (simp add: inject_def existsSync_def readFile_def Let_def)

text \<open>The example inputs, evaluated.\<close>

lemma example_files [simp]:
  "files example_world ''/work/f.txt'' = Some [CHR ''A'', LF, CHR ''B'']"
  "files example_world ''/work/missing.txt'' = None"
  "files example_world ''/work/mixed.txt'' = Some [CHR ''a'', CR, LF, CHR ''b'', CR, LF, CHR ''c'', LF, CHR ''d'']"
  by (simp_all add: example_world_def)

lemma example_relative [simp]:
  "relative example_host (cwd example_ctx) ''/work/f.txt'' = ''f.txt''"
  "relative example_host (cwd example_ctx) ''/work/mixed.txt'' = ''mixed.txt''"
  by (simp_all add: example_host_def example_ctx_def)

lemma example_newline [simp]:
  "newline example_host [CHR ''A'', LF, CHR ''B''] = [LF]"
  "newline example_host [CHR ''a'', CR, LF, CHR ''b'', CR, LF, CHR ''c'', LF, CHR ''d''] = [CR, LF]"
  by (simp_all add: newline_def CR_def LF_def)

lemma example_split [simp]:
  "split_str [LF] [CHR ''A'', LF, CHR ''B''] = [''A'', ''B'']"
  "split_str [CR, LF] [CHR ''a'', CR, LF, CHR ''b'', CR, LF, CHR ''c'', LF, CHR ''d''] = [''a'', ''b'', [CHR ''c'', LF, CHR ''d'']]"
  by (simp_all add: split_str.simps CR_def LF_def)

text \<open>
  C7: when the resolved target file does not exist, \<^verbatim>\<open>inject\<close> fails with a message
  that names the path, and the world is as it was: no file has been read or written.
\<close>

theorem inject_missing_file:
  assumes "getCallable target c = Inr fileName"
    and "getCallable template c = Inr content"
    and "files w fileName = None"
  shows "inject h template location target c w =
           (Inl (Error (''Cannot inject to '' @ [QUOTE] @ fileName @ [QUOTE]
                        @ ''. The file doesn'' @ [QUOTE] @ ''t exist.'')), w)
         \<and> io (snd (inject h template location target c w)) = io w
         \<and> files (snd (inject h template location target c w)) = files w"
  using assms by (simp add: inject_def existsSync_def Let_def)

theorem inject_missing_file_witness:
  "inject example_host (Value ''X'') prepend (Value ''/work/missing.txt'') example_ctx example_world
     = (Inl (Error (''Cannot inject to '' @ [QUOTE] @ ''/work/missing.txt'' @ [QUOTE]
                    @ ''. The file doesn'' @ [QUOTE] @ ''t exist.'')), example_world)
   \<and> io example_world = []"
  using inject_missing_file [of "Value ''/work/missing.txt''" example_ctx "''/work/missing.txt''"
      "Value ''X''" "''X''" example_world example_host prepend]
  by (simp add: example_world_def)

subsection \<open>The failure of \<^verbatim>\<open>before\<close> and \<^verbatim>\<open>after\<close>\<close>

lemma getLineNumber_result:
  assumes r: "matcher_of p = Some r"
  shows "\<exists>i. getLineNumber p lines b = Some i
           \<and> (i < 0 \<longleftrightarrow> (\<forall>l\<in>set lines. exec_match r l = None)
                          \<and> exec_match r (join [LF] lines) = None)"
proof (cases "\<forall>l\<in>set lines. exec_match r l = None")
  case True
  show ?thesis
    using True getLineNumber_no_line [OF r True, of b]
    by (cases "exec_match r (join [LF] lines)") auto
next
  case False
  then have "\<exists>l\<in>set lines. exec_match r l \<noteq> None" by simp
  from findIndex_first [OF this] obtain i where
    "findIndex (\<lambda>l. exec_match r l \<noteq> None) lines = int i" by blast
  from getLineNumber_single_line [OF r this, of b] False show ?thesis by auto
qed

lemma before_result:
  assumes "getCallable pat c = Inr p"
  shows "before pat lines c fileName =
     (if (\<forall>l\<in>set lines. \<not> line_matches p l) \<and> \<not> line_matches p (join [LF] lines)
      then Inl (Error (''Could not find line '' @ [QUOTE] @ pattern_text p @ [QUOTE]
                       @ '' in file '' @ fileName @ '' to inject content before''))
      else Inr \<lparr> index = the (getLineNumber p lines True), pattern = Some p \<rparr>)"
proof -
  obtain r where r: "matcher_of p = Some r" by (rule matcher_of_cases)
  from getLineNumber_result [OF r, of lines True] obtain i where
    i: "getLineNumber p lines True = Some i"
       "i < 0 \<longleftrightarrow> (\<forall>l\<in>set lines. exec_match r l = None) \<and> exec_match r (join [LF] lines) = None"
    by blast
  have lm: "line_matches p l \<longleftrightarrow> exec_match r l \<noteq> None" for l
    using r by (simp add: line_matches_def)
  show ?thesis
    using assms i by (auto simp: before_def lm)
qed

lemma after_result:
  assumes "getCallable pat c = Inr p"
  shows "after pat lines c fileName =
     (if (\<forall>l\<in>set lines. \<not> line_matches p l) \<and> \<not> line_matches p (join [LF] lines)
      then Inl (Error (''Could not find line '' @ [QUOTE] @ pattern_text p @ [QUOTE]
                       @ '' in file '' @ fileName @ '' to inject content after''))
      else Inr \<lparr> index = the (getLineNumber p lines False), pattern = Some p \<rparr>)"
proof -
  obtain r where r: "matcher_of p = Some r" by (rule matcher_of_cases)
  from getLineNumber_result [OF r, of lines False] obtain i where
    i: "getLineNumber p lines False = Some i"
       "i < 0 \<longleftrightarrow> (\<forall>l\<in>set lines. exec_match r l = None) \<and> exec_match r (join [LF] lines) = None"
    by blast
  have lm: "line_matches p l \<longleftrightarrow> exec_match r l \<noteq> None" for l
    using r by (simp add: line_matches_def)
  show ?thesis
    using assms i by (auto simp: after_def lm)
qed

text \<open>
  C6: with the pattern resolved, \<^verbatim>\<open>before\<close> fails if and only if no line matches and
  the lines joined with a line feed do not match either, and so does \<^verbatim>\<open>after\<close>; the
  error then has the message \<^verbatim>\<open>Could not find line '<pattern>' in file <fileName> to
  inject content before\<close> (\<^verbatim>\<open>after\<close> for \<^verbatim>\<open>after\<close>) with the text of the resolved
  pattern, and within \<^verbatim>\<open>inject\<close> the file name is the target path relative to the
  working directory.
\<close>

theorem before_after_fail_iff_no_match:
  assumes "getCallable pat c = Inr p"
  shows "(isl (before pat lines c fileName) \<longleftrightarrow>
            (\<forall>l\<in>set lines. \<not> line_matches p l) \<and> \<not> line_matches p (join [LF] lines))
    \<and> (isl (after pat lines c fileName) \<longleftrightarrow>
            (\<forall>l\<in>set lines. \<not> line_matches p l) \<and> \<not> line_matches p (join [LF] lines))
    \<and> (isl (before pat lines c fileName) \<longrightarrow>
          before pat lines c fileName =
            Inl (Error (''Could not find line '' @ [QUOTE] @ pattern_text p @ [QUOTE]
                        @ '' in file '' @ fileName @ '' to inject content before'')))
    \<and> (isl (after pat lines c fileName) \<longrightarrow>
          after pat lines c fileName =
            Inl (Error (''Could not find line '' @ [QUOTE] @ pattern_text p @ [QUOTE]
                        @ '' in file '' @ fileName @ '' to inject content after'')))
    \<and> (getCallable target c = Inr path \<and> getCallable template c = Inr content
          \<and> files w path = Some s
          \<and> isl (before pat (split_str (newline h s) s) c (relative h (cwd c) path)) \<longrightarrow>
          fst (inject h template (before pat) target c w) =
            Inl (Error (''Could not find line '' @ [QUOTE] @ pattern_text p @ [QUOTE]
                        @ '' in file '' @ relative h (cwd c) path
                        @ '' to inject content before'')))
    \<and> (getCallable target c = Inr path \<and> getCallable template c = Inr content
          \<and> files w path = Some s
          \<and> isl (after pat (split_str (newline h s) s) c (relative h (cwd c) path)) \<longrightarrow>
          fst (inject h template (after pat) target c w) =
            Inl (Error (''Could not find line '' @ [QUOTE] @ pattern_text p @ [QUOTE]
                        @ '' in file '' @ relative h (cwd c) path
                        @ '' to inject content after'')))"
proof (intro conjI impI)
  show "isl (before pat lines c fileName) \<longleftrightarrow>
          (\<forall>l\<in>set lines. \<not> line_matches p l) \<and> \<not> line_matches p (join [LF] lines)"
    by (simp add: before_result [OF assms])
  show "isl (after pat lines c fileName) \<longleftrightarrow>
          (\<forall>l\<in>set lines. \<not> line_matches p l) \<and> \<not> line_matches p (join [LF] lines)"
    by (simp add: after_result [OF assms])
  show "before pat lines c fileName =
            Inl (Error (''Could not find line '' @ [QUOTE] @ pattern_text p @ [QUOTE]
                        @ '' in file '' @ fileName @ '' to inject content before''))"
    if "isl (before pat lines c fileName)"
    using that by (simp add: before_result [OF assms] split: if_splits)
  show "after pat lines c fileName =
            Inl (Error (''Could not find line '' @ [QUOTE] @ pattern_text p @ [QUOTE]
                        @ '' in file '' @ fileName @ '' to inject content after''))"
    if "isl (after pat lines c fileName)"
    using that by (simp add: after_result [OF assms] split: if_splits)
  show "fst (inject h template (before pat) target c w) =
            Inl (Error (''Could not find line '' @ [QUOTE] @ pattern_text p @ [QUOTE]
                        @ '' in file '' @ relative h (cwd c) path
                        @ '' to inject content before''))"
    if a: "getCallable target c = Inr path \<and> getCallable template c = Inr content
          \<and> files w path = Some s
          \<and> isl (before pat (split_str (newline h s) s) c (relative h (cwd c) path))"
  proof -
    have "before pat (split_str (newline h s) s) c (relative h (cwd c) path) =
            Inl (Error (''Could not find line '' @ [QUOTE] @ pattern_text p @ [QUOTE]
                        @ '' in file '' @ relative h (cwd c) path
                        @ '' to inject content before''))"
      using a by (simp add: before_result [OF assms] split: if_splits)
    with a show ?thesis
      using inject_location_fails [of target c path template content w s "before pat" h]
      by simp
  qed
  show "fst (inject h template (after pat) target c w) =
            Inl (Error (''Could not find line '' @ [QUOTE] @ pattern_text p @ [QUOTE]
                        @ '' in file '' @ relative h (cwd c) path
                        @ '' to inject content after''))"
    if a: "getCallable target c = Inr path \<and> getCallable template c = Inr content
          \<and> files w path = Some s
          \<and> isl (after pat (split_str (newline h s) s) c (relative h (cwd c) path))"
  proof -
    have "after pat (split_str (newline h s) s) c (relative h (cwd c) path) =
            Inl (Error (''Could not find line '' @ [QUOTE] @ pattern_text p @ [QUOTE]
                        @ '' in file '' @ relative h (cwd c) path
                        @ '' to inject content after''))"
      using a by (simp add: after_result [OF assms] split: if_splits)
    with a show ?thesis
      using inject_location_fails [of target c path template content w s "after pat" h]
      by simp
  qed
qed

theorem before_after_fail_iff_no_match_witness:
  "before (Value (Str ''ZZZ'')) [''A'', ''B''] example_ctx ''f.txt''
     = Inl (Error (''Could not find line '' @ [QUOTE] @ ''ZZZ'' @ [QUOTE]
                   @ '' in file f.txt to inject content before''))
   \<and> after (Value (Str ''ZZZ'')) [''A'', ''B''] example_ctx ''f.txt''
     = Inl (Error (''Could not find line '' @ [QUOTE] @ ''ZZZ'' @ [QUOTE]
                   @ '' in file f.txt to inject content after''))
   \<and> fst (inject example_host (Value ''X'') (before (Value (Str ''ZZZ''))) (Value ''/work/f.txt'')
          example_ctx example_world)
     = Inl (Error (''Could not find line '' @ [QUOTE] @ ''ZZZ'' @ [QUOTE]
                   @ '' in file f.txt to inject content before''))
   \<and> \<not> isl (before (Value (Str ''B'')) [''A'', ''B''] example_ctx ''f.txt'')"
proof -
  have g: "getCallable (Value (Str ''ZZZ'')) example_ctx = Inr (Str ''ZZZ'')" by simp
  have g': "getCallable (Value (Str ''B'')) example_ctx = Inr (Str ''B'')" by simp
  have no: "(\<forall>l\<in>set [''A'', ''B'']. \<not> line_matches (Str ''ZZZ'') l)
      \<and> \<not> line_matches (Str ''ZZZ'') (join [LF] [''A'', ''B''])"
    by (simp add: line_matches_Str sublist_Cons_right LF_def)
  have yes: "line_matches (Str ''B'') ''B''"
    by (simp add: line_matches_Str)
  note t = before_after_fail_iff_no_match [OF g, of "[''A'', ''B'']" "''f.txt''"
      "Value ''/work/f.txt''" "''/work/f.txt''" "Value ''X''" "''X''" example_world
      "[CHR ''A'', LF, CHR ''B'']" example_host]
  note t' = before_after_fail_iff_no_match [OF g', of "[''A'', ''B'']" "''f.txt''"
      "Value ''/work/f.txt''" "''/work/f.txt''" "Value ''X''" "''X''" example_world
      "[CHR ''A'', LF, CHR ''B'']" example_host]
  from t no have b: "isl (before (Value (Str ''ZZZ'')) [''A'', ''B''] example_ctx ''f.txt'')"
    and a: "isl (after (Value (Str ''ZZZ'')) [''A'', ''B''] example_ctx ''f.txt'')"
    by blast+
  from t b have 1: "before (Value (Str ''ZZZ'')) [''A'', ''B''] example_ctx ''f.txt''
     = Inl (Error (''Could not find line '' @ [QUOTE] @ pattern_text (Str ''ZZZ'') @ [QUOTE]
                   @ '' in file '' @ ''f.txt'' @ '' to inject content before''))"
    by blast
  from t a have 2: "after (Value (Str ''ZZZ'')) [''A'', ''B''] example_ctx ''f.txt''
     = Inl (Error (''Could not find line '' @ [QUOTE] @ pattern_text (Str ''ZZZ'') @ [QUOTE]
                   @ '' in file '' @ ''f.txt'' @ '' to inject content after''))"
    by blast
  from t b have 3: "fst (inject example_host (Value ''X'') (before (Value (Str ''ZZZ''))) (Value ''/work/f.txt'')
          example_ctx example_world)
     = Inl (Error (''Could not find line '' @ [QUOTE] @ pattern_text (Str ''ZZZ'') @ [QUOTE]
                   @ '' in file '' @ ''f.txt'' @ '' to inject content before''))"
    by simp
  from t' yes have 4: "\<not> isl (before (Value (Str ''B'')) [''A'', ''B''] example_ctx ''f.txt'')"
    by simp
  from 1 2 3 4 show ?thesis by (simp add: pattern_text_def)
qed

subsection \<open>The newline convention\<close>

lemma crlf_occurrences_Nil [simp]: "crlf_occurrences [] = 0"
  by (simp add: crlf_occurrences_def)

lemma crlf_occurrences_Cons:
  "crlf_occurrences (c # cs) =
     (if c = CR \<and> cs \<noteq> [] \<and> hd cs = LF then 1 else 0) + crlf_occurrences cs"
  by (cases cs) (auto simp: crlf_occurrences_def)

lemma match_newlines_crlf:
  "length (filter (\<lambda>n. n = [CR, LF]) (match_newlines s)) = crlf_occurrences s"
proof (induction s rule: match_newlines.induct)
  case 1
  show ?case by simp
next
  case (2 c cs)
  consider (crlf) "c = CR" "cs \<noteq> []" "hd cs = LF"
    | (lf) "\<not> (c = CR \<and> cs \<noteq> [] \<and> hd cs = LF)" "c = LF"
    | (other) "\<not> (c = CR \<and> cs \<noteq> [] \<and> hd cs = LF)" "c \<noteq> LF"
    by blast
  then show ?case
  proof cases
    case crlf
    then obtain ds where cs: "cs = LF # ds" by (cases cs) auto
    have "length (filter (\<lambda>n. n = [CR, LF]) (match_newlines (c # cs)))
        = Suc (length (filter (\<lambda>n. n = [CR, LF]) (match_newlines ds)))"
      using crlf cs by simp
    also have "\<dots> = Suc (crlf_occurrences ds)"
      using "2.IH"(1) crlf cs by simp
    also have "\<dots> = crlf_occurrences (c # cs)"
      using crlf cs by (simp add: crlf_occurrences_Cons)
    finally show ?thesis .
  next
    case lf
    have "length (filter (\<lambda>n. n = [CR, LF]) (match_newlines (c # cs)))
        = length (filter (\<lambda>n. n = [CR, LF]) (match_newlines cs))"
      using lf by auto
    also have "\<dots> = crlf_occurrences cs"
      using "2.IH"(2) lf by blast
    also have "\<dots> = crlf_occurrences (c # cs)"
      using lf by (auto simp: crlf_occurrences_Cons)
    finally show ?thesis .
  next
    case other
    have "length (filter (\<lambda>n. n = [CR, LF]) (match_newlines (c # cs)))
        = length (filter (\<lambda>n. n = [CR, LF]) (match_newlines cs))"
      using other by auto
    also have "\<dots> = crlf_occurrences cs"
      using "2.IH"(3) other by blast
    also have "\<dots> = crlf_occurrences (c # cs)"
      using other by (auto simp: crlf_occurrences_Cons)
    finally show ?thesis .
  qed
qed

lemma match_newlines_lf_from:
  "p \<noteq> Some CR \<or> s = [] \<or> hd s \<noteq> LF \<Longrightarrow>
   length (filter (\<lambda>n. n \<noteq> [CR, LF]) (match_newlines s))
     = length (filter (\<lambda>(p, c). c = LF \<and> p \<noteq> Some CR) (zip (p # map Some s) s))"
proof (induction s arbitrary: p rule: match_newlines.induct)
  case 1
  show ?case by simp
next
  case (2 c cs)
  let ?F = "\<lambda>p s. length (filter (\<lambda>(p, c). c = LF \<and> p \<noteq> Some CR) (zip (p # map Some s) s))"
  let ?G = "\<lambda>s. length (filter (\<lambda>n. n \<noteq> [CR, LF]) (match_newlines s))"
  have step: "?F p (c # cs) = (if c = LF \<and> p \<noteq> Some CR then 1 else 0) + ?F (Some c) cs"
    by simp
  consider (crlf) "c = CR" "cs \<noteq> []" "hd cs = LF"
    | (lf) "\<not> (c = CR \<and> cs \<noteq> [] \<and> hd cs = LF)" "c = LF"
    | (other) "\<not> (c = CR \<and> cs \<noteq> [] \<and> hd cs = LF)" "c \<noteq> LF"
    by blast
  then show ?case
  proof cases
    case crlf
    then obtain ds where cs: "cs = LF # ds" by (cases cs) auto
    have "?G (c # cs) = ?G ds"
      using crlf cs by simp
    also have "\<dots> = ?F (Some LF) ds"
      using "2.IH"(1) [of "Some LF"] crlf cs by simp
    also have "\<dots> = ?F p (c # cs)"
      using crlf cs by simp
    finally show ?thesis .
  next
    case lf
    have "?G (c # cs) = Suc (?G cs)"
      using lf by auto
    also have "\<dots> = Suc (?F (Some LF) cs)"
      using "2.IH"(2) [of "Some LF"] lf by auto
    also have "\<dots> = ?F p (c # cs)"
      using lf "2.prems" by simp
    finally show ?thesis .
  next
    case other
    have "?G (c # cs) = ?G cs"
      using other by auto
    also have "\<dots> = ?F (Some c) cs"
      using "2.IH"(3) [of "Some c"] other by auto
    also have "\<dots> = ?F p (c # cs)"
      using other by simp
    finally show ?thesis .
  qed
qed

lemma match_newlines_lf:
  "length (match_newlines s) - length (filter (\<lambda>n. n = [CR, LF]) (match_newlines s))
     = lf_occurrences s"
proof -
  have "length (filter (\<lambda>n. n = [CR, LF]) (match_newlines s))
      + length (filter (\<lambda>n. n \<noteq> [CR, LF]) (match_newlines s)) = length (match_newlines s)"
    by (rule sum_length_filter_compl)
  then show ?thesis
    using match_newlines_lf_from [of None s] by (simp add: lf_occurrences_def)
qed

lemma length_match_newlines:
  "length (match_newlines s) = crlf_occurrences s + lf_occurrences s"
  using match_newlines_lf [of s] match_newlines_crlf [of s]
    length_filter_le [of "\<lambda>n. n = [CR, LF]" "match_newlines s"]
  by linarith

lemma newline_spec:
  "newline h s =
     (if crlf_occurrences s + lf_occurrences s = 0 then EOL h
      else if lf_occurrences s < crlf_occurrences s then [CR, LF] else [LF])"
  unfolding newline_def Let_def match_newlines_lf match_newlines_crlf length_match_newlines
  by simp

subsection \<open>The written content\<close>

lemma join_append:
  "xs \<noteq> [] \<Longrightarrow> ys \<noteq> [] \<Longrightarrow> join sep (xs @ ys) = join sep xs @ sep @ join sep ys"
proof (induction sep xs rule: join.induct)
  case (2 sep x)
  then show ?case by (cases ys) simp_all
qed simp_all

lemma join_snoc: "xs \<noteq> [] \<Longrightarrow> join sep (xs @ [x]) = join sep xs @ sep @ x"
  using join_append [of xs "[x]" sep] by simp

lemma join_Cons: "xs \<noteq> [] \<Longrightarrow> join sep (x # xs) = x @ sep @ join sep xs"
  by (cases xs) simp_all

lemma join_splice_insert:
  assumes "lines \<noteq> []" and "0 \<le> i"
  shows "\<exists>pre post. join sep lines = pre @ post
           \<and> (join sep (splice_insert lines i content) = pre @ content @ sep @ post
              \<or> post = [] \<and> join sep (splice_insert lines i content) = pre @ sep @ content)"
proof -
  let ?k = "nat i"
  consider (first) "?k = 0" | (middle) "0 < ?k" "?k < length lines" | (last) "length lines \<le> ?k"
    by linarith
  then show ?thesis
  proof cases
    case first
    then have "join sep (splice_insert lines i content) = [] @ content @ sep @ join sep lines"
      using assms(1) by (simp add: splice_insert_def join_Cons)
    then show ?thesis by (intro exI [of _ "[]"] exI [of _ "join sep lines"]) simp
  next
    case middle
    let ?a = "take ?k lines" and ?b = "drop ?k lines"
    have ne: "?a \<noteq> []" "?b \<noteq> []" using middle assms(1) by auto
    have 1: "join sep lines = (join sep ?a @ sep) @ join sep ?b"
      using join_append [OF ne, of sep] by simp
    have "join sep (splice_insert lines i content) = join sep (?a @ (content # ?b))"
      by (simp add: splice_insert_def)
    also have "\<dots> = join sep ?a @ sep @ join sep (content # ?b)"
      using ne by (intro join_append) simp_all
    also have "\<dots> = (join sep ?a @ sep) @ content @ sep @ join sep ?b"
      using ne by (simp add: join_Cons)
    finally show ?thesis using 1 by blast
  next
    case last
    then have "join sep (splice_insert lines i content) = join sep lines @ sep @ content"
      using assms(1) by (simp add: splice_insert_def join_snoc)
    then show ?thesis by (intro exI [of _ "join sep lines"] exI [of _ "[]"]) simp
  qed
qed

lemma split_newline_not_Nil: "split_str (newline h s) s \<noteq> []"
  by (rule split_str_not_Nil [OF newline_not_Nil])

lemma example_mixed_counts:
  "crlf_occurrences [CHR ''a'', CR, LF, CHR ''b'', CR, LF, CHR ''c'', LF, CHR ''d''] = 2"
  "lf_occurrences [CHR ''a'', CR, LF, CHR ''b'', CR, LF, CHR ''c'', LF, CHR ''d''] = 1"
  by (simp_all add: crlf_occurrences_def lf_occurrences_def CR_def LF_def)

lemma example_prepend_mixed:
  "files (snd (inject example_host (Value ''X'') prepend (Value ''/work/mixed.txt'')
             example_ctx example_world)) ''/work/mixed.txt''
     = Some [CHR ''X'', CR, LF, CHR ''a'', CR, LF, CHR ''b'', CR, LF, CHR ''c'', LF, CHR ''d'']"
  using inject_run [of "Value ''/work/mixed.txt''" example_ctx "''/work/mixed.txt''"
      "Value ''X''" "''X''" example_world
      "[CHR ''a'', CR, LF, CHR ''b'', CR, LF, CHR ''c'', LF, CHR ''d'']"
      prepend example_host "\<lparr> index = 0, pattern = None \<rparr>"]
  by (simp add: prepend_def splice_insert_def)

text \<open>
  C2, as amended: the detected convention is CRLF exactly when the CRLF occurrences
  outnumber the LF occurrences, LF on a tie or an LF majority, and the default of the host
  when the content has no newline. After an injection at an index that is not negative, the
  written content is the original, split on the detected separator, with the injected text
  inserted as one element and joined with that separator again: it is the original with
  the injected text and one detected separator put in at one place, so the separator that
  the injection introduces is the detected one, and every separator of the original is
  written back as it was.
\<close>

theorem newline_detection_and_injected_separator:
  "newline h s =
     (if crlf_occurrences s + lf_occurrences s = 0 then EOL h
      else if lf_occurrences s < crlf_occurrences s then [CR, LF] else [LF])
   \<and> (getCallable target c = Inr fileName \<and> getCallable template c = Inr content
        \<and> files w fileName = Some s
        \<and> location (split_str (newline h s) s) c (relative h (cwd c) fileName) = Inr loc
        \<and> 0 \<le> index loc \<longrightarrow>
        files (snd (inject h template location target c w)) fileName
          = Some (join (newline h s) (splice_insert (split_str (newline h s) s) (index loc) content))
        \<and> (\<exists>pre post. s = pre @ post
              \<and> (files (snd (inject h template location target c w)) fileName
                    = Some (pre @ content @ newline h s @ post)
                 \<or> post = []
                   \<and> files (snd (inject h template location target c w)) fileName
                       = Some (pre @ newline h s @ content))))"
proof (intro conjI impI)
  show "newline h s =
     (if crlf_occurrences s + lf_occurrences s = 0 then EOL h
      else if lf_occurrences s < crlf_occurrences s then [CR, LF] else [LF])"
    by (rule newline_spec)
next
  assume a: "getCallable target c = Inr fileName \<and> getCallable template c = Inr content
        \<and> files w fileName = Some s
        \<and> location (split_str (newline h s) s) c (relative h (cwd c) fileName) = Inr loc
        \<and> 0 \<le> index loc"
  let ?NL = "newline h s"
  let ?written = "join ?NL (splice_insert (split_str ?NL s) (index loc) content)"
  have run: "files (snd (inject h template location target c w)) fileName = Some ?written"
    using a inject_run [of target c fileName template content w s location h loc] by simp
  then show "files (snd (inject h template location target c w)) fileName = Some ?written" .
  from join_splice_insert [where lines = "split_str ?NL s" and i = "index loc" and sep = ?NL
      and content = content] split_newline_not_Nil [of h s] a
  obtain pre post where "join ?NL (split_str ?NL s) = pre @ post"
    "?written = pre @ content @ ?NL @ post \<or> post = [] \<and> ?written = pre @ ?NL @ content"
    by blast
  then show "\<exists>pre post. s = pre @ post
              \<and> (files (snd (inject h template location target c w)) fileName
                    = Some (pre @ content @ newline h s @ post)
                 \<or> post = []
                   \<and> files (snd (inject h template location target c w)) fileName
                       = Some (pre @ newline h s @ content))"
    unfolding run join_split_newline by blast
qed

text \<open>
  C2 as stated fails: a file with two CRLF and one LF has a CRLF majority, and after
  \<^verbatim>\<open>X\<close> is injected in front of it the written content still has its LF occurrence.
\<close>

theorem crlf_majority_keeps_lf_counterexample:
  "lf_occurrences [CHR ''a'', CR, LF, CHR ''b'', CR, LF, CHR ''c'', LF, CHR ''d'']
     < crlf_occurrences [CHR ''a'', CR, LF, CHR ''b'', CR, LF, CHR ''c'', LF, CHR ''d'']
   \<and> files example_world ''/work/mixed.txt''
       = Some [CHR ''a'', CR, LF, CHR ''b'', CR, LF, CHR ''c'', LF, CHR ''d'']
   \<and> files (snd (inject example_host (Value ''X'') prepend (Value ''/work/mixed.txt'')
               example_ctx example_world)) ''/work/mixed.txt''
       = Some [CHR ''X'', CR, LF, CHR ''a'', CR, LF, CHR ''b'', CR, LF, CHR ''c'', LF, CHR ''d'']
   \<and> lf_occurrences
         [CHR ''X'', CR, LF, CHR ''a'', CR, LF, CHR ''b'', CR, LF, CHR ''c'', LF, CHR ''d''] = 1"
  using example_prepend_mixed
  by (simp add: example_mixed_counts) (simp add: lf_occurrences_def CR_def LF_def)

text \<open>
  The same file with \<^verbatim>\<open>X\<close> appended: the detected separator is CRLF, and it is the one
  put between the original and \<^verbatim>\<open>X\<close>.
\<close>

theorem newline_detection_and_injected_separator_witness:
  "newline example_host [CHR ''a'', CR, LF, CHR ''b'', CR, LF, CHR ''c'', LF, CHR ''d''] = [CR, LF]
   \<and> files (snd (inject example_host (Value ''X'') append_location (Value ''/work/mixed.txt'')
               example_ctx example_world)) ''/work/mixed.txt''
       = Some [CHR ''a'', CR, LF, CHR ''b'', CR, LF, CHR ''c'', LF, CHR ''d'', CR, LF, CHR ''X'']"
proof -
  let ?s = "[CHR ''a'', CR, LF, CHR ''b'', CR, LF, CHR ''c'', LF, CHR ''d'']"
  note t = newline_detection_and_injected_separator [of example_host ?s
      "Value ''/work/mixed.txt''" example_ctx "''/work/mixed.txt''" "Value ''X''" "''X''"
      example_world append_location "\<lparr> index = 3, pattern = None \<rparr>"]
  from t have "newline example_host ?s = [CR, LF]"
    by (simp add: example_mixed_counts)
  moreover from t have "files (snd (inject example_host (Value ''X'') append_location (Value ''/work/mixed.txt'')
               example_ctx example_world)) ''/work/mixed.txt''
       = Some (join [CR, LF] (splice_insert [''a'', ''b'', [CHR ''c'', LF, CHR ''d'']] 3 ''X''))"
    by (simp add: append_location_def)
  ultimately show ?thesis by (simp add: splice_insert_def)
qed

subsection \<open>A negative index\<close>

text \<open>
  C3, as amended: when the anchor resolver returns a negative index, \<^verbatim>\<open>inject\<close> does not
  fail. It inserts nothing, reads the file and writes it back with its lines joined again,
  and returns what \<^verbatim>\<open>addTrace\<close> gives for the context, the action \<^verbatim>\<open>inject\<close> and the
  file name and content.
\<close>

theorem inject_negative_index_no_failure:
  assumes "getCallable target c = Inr fileName"
    and "getCallable template c = Inr content"
    and "files w fileName = Some s"
    and "location (split_str (newline h s) s) c (relative h (cwd c) fileName) = Inr loc"
    and "index loc < 0"
  shows "fst (inject h template location target c w)
           = Inr (addTrace c ''inject'' [(''fileName'', fileName), (''content'', content)])
    \<and> io (snd (inject h template location target c w))
           = io w @ [ReadFile fileName,
                     WriteFile fileName (join (newline h s) (split_str (newline h s) s))]"
  using assms inject_run [of target c fileName template content w s location h loc]
  by simp

text \<open>
  C3 as stated fails: with a resolver that returns -1, the operation returns the context
  that \<^verbatim>\<open>addTrace\<close> gives, and it has written the file.
\<close>

theorem inject_negative_index_counterexample:
  "fst (inject example_host (Value ''X'') negative_location (Value ''/work/f.txt'')
          example_ctx example_world)
     = Inr (addTrace example_ctx ''inject'' [(''fileName'', ''/work/f.txt''), (''content'', ''X'')])
   \<and> io (snd (inject example_host (Value ''X'') negative_location (Value ''/work/f.txt'')
               example_ctx example_world))
     = [ReadFile ''/work/f.txt'', WriteFile ''/work/f.txt'' [CHR ''A'', LF, CHR ''B'']]"
  using inject_run [of "Value ''/work/f.txt''" example_ctx "''/work/f.txt''"
      "Value ''X''" "''X''" example_world "[CHR ''A'', LF, CHR ''B'']"
      negative_location example_host "\<lparr> index = - 1, pattern = None \<rparr>"]
  by (simp add: negative_location_def) (simp add: example_world_def)

theorem inject_negative_index_no_failure_witness:
  "isl (fst (inject example_host (Value ''X'') negative_location (Value ''/work/f.txt'')
          example_ctx example_world)) = False
   \<and> io (snd (inject example_host (Value ''X'') negative_location (Value ''/work/f.txt'')
               example_ctx example_world))
     = io example_world @ [ReadFile ''/work/f.txt'', WriteFile ''/work/f.txt'' [CHR ''A'', LF, CHR ''B'']]"
  using inject_negative_index_no_failure [of "Value ''/work/f.txt''" example_ctx "''/work/f.txt''"
      "Value ''X''" "''X''" example_world "[CHR ''A'', LF, CHR ''B'']"
      negative_location example_host "\<lparr> index = - 1, pattern = None \<rparr>"]
  by (simp add: negative_location_def)

text \<open>
  C10: a text split on its detected separator and joined with the same separator is that
  text again. So when the anchor resolver returns a negative index, \<^verbatim>\<open>inject\<close> writes
  the content that it has read, the files are as before, the notice is logged and the trace
  entry of the injection is added.
\<close>

theorem split_join_roundtrip_negative_index:
  "join (newline h s) (split_str (newline h s) s) = s
   \<and> (getCallable target c = Inr fileName \<and> getCallable template c = Inr content
        \<and> files w fileName = Some s
        \<and> location (split_str (newline h s) s) c (relative h (cwd c) fileName) = Inr loc
        \<and> index loc < 0 \<longrightarrow>
        inject h template location target c w =
          (Inr (addTrace c ''inject'' [(''fileName'', fileName), (''content'', content)]),
           w\<lparr> io := io w @ [ReadFile fileName, WriteFile fileName s],
               notices := notices w @ [''Updated '' @ relative h (cwd c) fileName] \<rparr>)
        \<and> files (snd (inject h template location target c w)) = files w)"
proof (intro conjI impI)
  show "join (newline h s) (split_str (newline h s) s) = s"
    by (rule join_split_newline)
next
  assume a: "getCallable target c = Inr fileName \<and> getCallable template c = Inr content
        \<and> files w fileName = Some s
        \<and> location (split_str (newline h s) s) c (relative h (cwd c) fileName) = Inr loc
        \<and> index loc < 0"
  then have same: "(files w)(fileName \<mapsto> s) = files w"
    by (simp add: map_upd_triv)
  have run: "inject h template location target c w =
          (Inr (addTrace c ''inject'' [(''fileName'', fileName), (''content'', content)]),
           w\<lparr> io := io w @ [ReadFile fileName, WriteFile fileName s],
               notices := notices w @ [''Updated '' @ relative h (cwd c) fileName] \<rparr>)"
    using a inject_run [of target c fileName template content w s location h loc]
    by (simp add: join_split_newline same)
  then show "inject h template location target c w =
          (Inr (addTrace c ''inject'' [(''fileName'', fileName), (''content'', content)]),
           w\<lparr> io := io w @ [ReadFile fileName, WriteFile fileName s],
               notices := notices w @ [''Updated '' @ relative h (cwd c) fileName] \<rparr>)" .
  show "files (snd (inject h template location target c w)) = files w"
    unfolding run by simp
qed

theorem split_join_roundtrip_negative_index_witness:
  "join [CR, LF] (split_str [CR, LF] [CHR ''a'', CR, LF, CHR ''b'', CR, LF, CHR ''c'', LF, CHR ''d''])
     = [CHR ''a'', CR, LF, CHR ''b'', CR, LF, CHR ''c'', LF, CHR ''d'']
   \<and> inject example_host (Value ''X'') negative_location (Value ''/work/mixed.txt'')
        example_ctx example_world
     = (Inr (addTrace example_ctx ''inject'' [(''fileName'', ''/work/mixed.txt''), (''content'', ''X'')]),
        example_world\<lparr> io := [ReadFile ''/work/mixed.txt'',
              WriteFile ''/work/mixed.txt'' [CHR ''a'', CR, LF, CHR ''b'', CR, LF, CHR ''c'', LF, CHR ''d'']],
            notices := [''Updated mixed.txt''] \<rparr>)"
  using split_join_roundtrip_negative_index [of example_host
      "[CHR ''a'', CR, LF, CHR ''b'', CR, LF, CHR ''c'', LF, CHR ''d'']"
      "Value ''/work/mixed.txt''" example_ctx "''/work/mixed.txt''" "Value ''X''" "''X''"
      example_world negative_location "\<lparr> index = - 1, pattern = None \<rparr>"]
  by (simp add: negative_location_def) (simp add: example_world_def)

subsection \<open>The search across lines\<close>

text \<open>
  When no line matches and the match in the joined text has an index, \<^verbatim>\<open>before\<close>
  counts the line feeds in front of the start of the match; when the match has no capture
  group either, \<^verbatim>\<open>after\<close> counts the line feeds in front of its end, plus one.
\<close>

lemma getLineNumber_fallback_before_indexed:
  assumes "matcher_of p = Some r"
    and "\<forall>l\<in>set lines. exec_match r l = None"
    and "exec_match r (join [LF] lines) = Some m"
    and "m_index m = Some i"
  shows "getLineNumber p lines True = Some (int (count_list (take i (join [LF] lines)) LF))"
  using getLineNumber_no_line [OF assms(1,2), of True] assms(3,4)
  by (simp add: substring0_def)

lemma getLineNumber_fallback_after_plain:
  assumes "matcher_of p = Some r"
    and "\<forall>l\<in>set lines. exec_match r l = None"
    and "exec_match r (join [LF] lines) = Some m"
    and "m_index m = Some i"
    and "m_rest m = []"
  shows "getLineNumber p lines False =
     Some (int (count_list (take (i + length (m_first m)) (join [LF] lines)) LF) + 1)"
  using getLineNumber_no_line [OF assms(1,2), of False] assms(3,4,5)
  by (simp add: toString_def m_array_def)

text \<open>
  The offset \<open>length (join [LF] (take k lines)) + (if k = 0 then 0 else 1) + j\<close> with
  \<open>j \<le> length (lines ! k)\<close> is the position \<open>j\<close> of the line of index \<open>k\<close> in the joined
  text. When no line holds a line feed itself, \<open>k\<close> line feeds are in front of it; so for a
  match with an index that starts on the line \<open>k\<close>, \<^verbatim>\<open>before\<close> returns \<open>k\<close>, and for a match
  with an index and no capture group that ends on the line \<open>k\<close>, \<^verbatim>\<open>after\<close> returns
  \<open>k + 1\<close>.
\<close>

lemma count_list_join_LF:
  assumes "\<forall>l\<in>set ls. LF \<notin> set l"
  shows "count_list (join [LF] ls) LF = length ls - 1"
  using assms
proof (induction ls rule: induct_list012)
  case 1
  show ?case by simp
next
  case (2 x)
  then show ?case by (simp add: count_list_0_iff)
next
  case (3 x y zs)
  then show ?case by (simp add: count_list_0_iff)
qed

lemma count_list_take_line:
  assumes "\<forall>l\<in>set ls. LF \<notin> set l" and "k < length ls" and "j \<le> length (ls ! k)"
  shows "count_list
           (take (length (join [LF] (take k ls)) + (if k = 0 then 0 else 1) + j) (join [LF] ls)) LF
         = k"
proof (cases "k = 0")
  case True
  with assms(2) obtain l rest where ls: "ls = l # rest" by (cases ls) auto
  have "take j (join [LF] ls) = take j l"
    using assms(3) True ls by (cases rest) simp_all
  moreover have "LF \<notin> set (take j l)"
    using assms(1) ls by (auto dest: in_set_takeD)
  ultimately show ?thesis using True by (simp add: count_list_0_iff)
next
  case False
  let ?a = "take k ls" and ?b = "drop (Suc k) ls"
  have ne: "?a \<noteq> []" using False assms(2) by auto
  have d: "drop k ls = ls ! k # ?b"
    using assms(2) by (simp add: Cons_nth_drop_Suc)
  have "join [LF] ls = join [LF] (?a @ drop k ls)" by simp
  also have "\<dots> = join [LF] ?a @ [LF] @ join [LF] (ls ! k # ?b)"
    unfolding d using ne by (intro join_append) simp_all
  also have "join [LF] (ls ! k # ?b) = ls ! k @ (if ?b = [] then [] else [LF] @ join [LF] ?b)"
    by (cases ?b) simp_all
  finally have j: "join [LF] ls
      = (join [LF] ?a @ [LF]) @ ls ! k @ (if ?b = [] then [] else [LF] @ join [LF] ?b)"
    by simp
  have "take (length (join [LF] ?a) + 1 + j) (join [LF] ls)
      = (join [LF] ?a @ [LF]) @ take j (ls ! k)"
    unfolding j using assms(3) by simp
  moreover have "count_list (join [LF] ?a) LF = k - 1"
    using count_list_join_LF [of ?a] assms(1,2) by (auto dest: in_set_takeD)
  moreover have "LF \<notin> set (take j (ls ! k))"
    using assms(1,2) by (auto dest!: in_set_takeD)
  ultimately show ?thesis using False by (simp add: count_list_0_iff)
qed

lemma getLineNumber_fallback_before_line:
  assumes "matcher_of p = Some r"
    and "\<forall>l\<in>set lines. exec_match r l = None"
    and "exec_match r (join [LF] lines) = Some m"
    and "m_index m = Some (length (join [LF] (take k lines)) + (if k = 0 then 0 else 1) + j)"
    and "\<forall>l\<in>set lines. LF \<notin> set l" and "k < length lines" and "j \<le> length (lines ! k)"
  shows "getLineNumber p lines True = Some (int k)"
  using getLineNumber_fallback_before_indexed [OF assms(1-4)]
    count_list_take_line [OF assms(5-7)]
  by simp

lemma getLineNumber_fallback_after_line:
  assumes "matcher_of p = Some r"
    and "\<forall>l\<in>set lines. exec_match r l = None"
    and "exec_match r (join [LF] lines) = Some m"
    and "m_index m = Some i" and "m_rest m = []"
    and "i + length (m_first m) = length (join [LF] (take k lines)) + (if k = 0 then 0 else 1) + j"
    and "\<forall>l\<in>set lines. LF \<notin> set l" and "k < length lines" and "j \<le> length (lines ! k)"
  shows "getLineNumber p lines False = Some (int k + 1)"
  using getLineNumber_fallback_after_plain [OF assms(1-5)]
    count_list_take_line [OF assms(7-9)] assms(6)
  by simp

text \<open>
  A line can hold a line feed itself: the content \<^verbatim>\<open>"a\nb\r\nc\r\nd"\<close> has a CRLF
  majority and is split into the lines \<^verbatim>\<open>"a\nb"\<close>, \<^verbatim>\<open>"c"\<close>, \<^verbatim>\<open>"d"\<close>. The pattern
  \<^verbatim>\<open>"c\nd"\<close> matches the joined text from the line of index 1, after two line feeds, and
  the result for \<^verbatim>\<open>before\<close> is 2.
\<close>

lemma before_line_with_line_feed:
  "split_str [CR, LF] [CHR ''a'', LF, CHR ''b'', CR, LF, CHR ''c'', CR, LF, CHR ''d'']
     = [[CHR ''a'', LF, CHR ''b''], ''c'', ''d'']
   \<and> \<not> line_matches (Str [CHR ''c'', LF, CHR ''d'']) [CHR ''a'', LF, CHR ''b'']
   \<and> \<not> line_matches (Str [CHR ''c'', LF, CHR ''d'']) ''c''
   \<and> \<not> line_matches (Str [CHR ''c'', LF, CHR ''d'']) ''d''
   \<and> search_literal [CHR ''c'', LF, CHR ''d''] (join [LF] [[CHR ''a'', LF, CHR ''b''], ''c'', ''d''])
       = Some 4
   \<and> getLineNumber (Str [CHR ''c'', LF, CHR ''d'']) [[CHR ''a'', LF, CHR ''b''], ''c'', ''d''] True
       = Some 2"
proof -
  have 1: "split_str [CR, LF] [CHR ''a'', LF, CHR ''b'', CR, LF, CHR ''c'', CR, LF, CHR ''d'']
     = [[CHR ''a'', LF, CHR ''b''], ''c'', ''d'']"
    by (simp add: split_str.simps CR_def LF_def)
  have 2: "\<not> line_matches (Str [CHR ''c'', LF, CHR ''d'']) [CHR ''a'', LF, CHR ''b'']"
    "\<not> line_matches (Str [CHR ''c'', LF, CHR ''d'']) ''c''"
    "\<not> line_matches (Str [CHR ''c'', LF, CHR ''d'']) ''d''"
    by (simp_all add: line_matches_Str sublist_Cons_right LF_def)
  have 3: "search_literal [CHR ''c'', LF, CHR ''d''] (join [LF] [[CHR ''a'', LF, CHR ''b''], ''c'', ''d''])
       = Some 4"
    by (simp add: LF_def)
  have "getLineNumber (Str [CHR ''c'', LF, CHR ''d'']) [[CHR ''a'', LF, CHR ''b''], ''c'', ''d''] True
       = Some 2"
    by (simp add: getLineNumber_def matcher_of_Str literal_regexp_def Let_def m_array_def
          substring0_def LF_def CR_def)
  with 1 2 3 show ?thesis by simp
qed

lemma example_joined:
  "join [LF] example_lines = [CHR ''A'', LF, CHR ''B'', LF, CHR ''C'', LF, CHR ''D'']"
  by (simp add: example_lines_def)

lemma exec_match_example_global:
  "exec_match example_global_regexp text =
     (case replicate (length (split_str [CHR ''B'', LF, CHR ''C''] text) - 1) [CHR ''B'', LF, CHR ''C''] of
        [] \<Rightarrow> None
      | x # xs \<Rightarrow> Some (Match None x (map Some xs)))"
  by (simp add: example_global_regexp_def global_literal_regexp_def)

lemma example_global_splits:
  "split_str [CHR ''B'', LF, CHR ''C''] ''A'' = [''A'']"
  "split_str [CHR ''B'', LF, CHR ''C''] ''B'' = [''B'']"
  "split_str [CHR ''B'', LF, CHR ''C''] ''C'' = [''C'']"
  "split_str [CHR ''B'', LF, CHR ''C''] ''D'' = [''D'']"
  "split_str [CHR ''B'', LF, CHR ''C''] [CHR ''A'', LF, CHR ''B'', LF, CHR ''C'', LF, CHR ''D'']
     = [[CHR ''A'', LF], [LF, CHR ''D'']]"
  by (simp_all add: split_str.simps LF_def)

text \<open>
  C4: with the regular expression \<^verbatim>\<open>/B\nC/g\<close>, no line of A, B, C, D matches and the
  joined text matches from offset 2, after one line feed, so on the line of index 1. The
  match of a regular expression with the \<^verbatim>\<open>g\<close> flag has no index, the text up to the
  start of the match is taken to be the whole text, and \<^verbatim>\<open>before\<close> returns 3.
\<close>

theorem before_global_regexp_failing_input:
  "exec_match example_global_regexp ''A'' = None
   \<and> exec_match example_global_regexp ''B'' = None
   \<and> exec_match example_global_regexp ''C'' = None
   \<and> exec_match example_global_regexp ''D'' = None
   \<and> exec_match example_global_regexp (join [LF] example_lines)
       = Some (Match None [CHR ''B'', LF, CHR ''C''] [])
   \<and> search_literal [CHR ''B'', LF, CHR ''C''] (join [LF] example_lines) = Some 2
   \<and> count_list (take 2 (join [LF] example_lines)) LF = 1
   \<and> before (Value (Rx example_global_regexp)) example_lines () ''f.txt''
       = Inr \<lparr> index = 3, pattern = Some (Rx example_global_regexp) \<rparr>"
proof -
  have 1: "exec_match example_global_regexp ''A'' = None"
    "exec_match example_global_regexp ''B'' = None"
    "exec_match example_global_regexp ''C'' = None"
    "exec_match example_global_regexp ''D'' = None"
    by (simp_all add: exec_match_example_global example_global_splits)
  have 2: "exec_match example_global_regexp (join [LF] example_lines)
       = Some (Match None [CHR ''B'', LF, CHR ''C''] [])"
    by (simp add: example_joined exec_match_example_global example_global_splits)
  have 3: "search_literal [CHR ''B'', LF, CHR ''C''] (join [LF] example_lines) = Some 2"
    "count_list (take 2 (join [LF] example_lines)) LF = 1"
    unfolding example_joined by (simp_all add: LF_def)
  have "\<forall>l\<in>set example_lines. exec_match example_global_regexp l = None"
    using 1 by (simp add: example_lines_def)
  from getLineNumber_no_line [of "Rx example_global_regexp" example_global_regexp
      example_lines True] this 2
  have "getLineNumber (Rx example_global_regexp) example_lines True = Some 3"
    unfolding example_joined by (simp add: matcher_of_def substring0_def LF_def)
  then have "before (Value (Rx example_global_regexp)) example_lines () ''f.txt''
       = Inr \<lparr> index = 3, pattern = Some (Rx example_global_regexp) \<rparr>"
    by (simp add: before_def)
  with 1 2 3 show ?thesis by simp
qed

text \<open>
  C5: with the regular expression \<^verbatim>\<open>/(B)\nC/\<close>, no line of A, B, C, D matches and the
  joined text matches from offset 2 to offset 5, on the line of index 2, so one past it is
  3. The length of the match is taken from the text of the whole array, in which the
  capture group follows the match after a comma, and \<^verbatim>\<open>after\<close> returns 4.
\<close>

theorem after_group_regexp_failing_input:
  "exec_match example_group_regexp ''A'' = None
   \<and> exec_match example_group_regexp ''B'' = None
   \<and> exec_match example_group_regexp ''C'' = None
   \<and> exec_match example_group_regexp ''D'' = None
   \<and> exec_match example_group_regexp (join [LF] example_lines)
       = Some (Match (Some 2) [CHR ''B'', LF, CHR ''C''] [Some ''B''])
   \<and> toString (Match (Some 2) [CHR ''B'', LF, CHR ''C''] [Some ''B''])
       = [CHR ''B'', LF, CHR ''C'', CHR '','', CHR ''B'']
   \<and> int (count_list (take (2 + length [CHR ''B'', LF, CHR ''C'']) (join [LF] example_lines)) LF) + 1 = 3
   \<and> after (Value (Rx example_group_regexp)) example_lines () ''f.txt''
       = Inr \<lparr> index = 4, pattern = Some (Rx example_group_regexp) \<rparr>"
proof -
  have 1: "exec_match example_group_regexp ''A'' = None"
    "exec_match example_group_regexp ''B'' = None"
    "exec_match example_group_regexp ''C'' = None"
    "exec_match example_group_regexp ''D'' = None"
    by (simp_all add: example_group_regexp_def group_literal_regexp_def LF_def)
  have 2: "exec_match example_group_regexp (join [LF] example_lines)
       = Some (Match (Some 2) [CHR ''B'', LF, CHR ''C''] [Some ''B''])"
    by (simp add: example_joined)
       (simp add: example_group_regexp_def group_literal_regexp_def LF_def)
  have 3: "toString (Match (Some 2) [CHR ''B'', LF, CHR ''C''] [Some ''B''])
       = [CHR ''B'', LF, CHR ''C'', CHR '','', CHR ''B'']"
    "int (count_list (take (2 + length [CHR ''B'', LF, CHR ''C'']) (join [LF] example_lines)) LF) + 1 = 3"
    unfolding example_joined by (simp_all add: toString_def m_array_def LF_def)
  have "\<forall>l\<in>set example_lines. exec_match example_group_regexp l = None"
    using 1 by (simp add: example_lines_def)
  from getLineNumber_no_line [of "Rx example_group_regexp" example_group_regexp
      example_lines False] this 2
  have "getLineNumber (Rx example_group_regexp) example_lines False = Some 4"
    unfolding example_joined by (simp add: matcher_of_def toString_def m_array_def LF_def)
  then have "after (Value (Rx example_group_regexp)) example_lines () ''f.txt''
       = Inr \<lparr> index = 4, pattern = Some (Rx example_group_regexp) \<rparr>"
    by (simp add: after_def)
  with 1 2 3 show ?thesis by simp
qed

end
